theory Spec2Isabelle
  imports Complex_Main
begin

section \<open>Vertex groups from a greyscale texture: the numeric core of init.py\<close>

text \<open>
  The add-on reads a raster image and a mesh with UV coordinates and writes vertex groups.
  Python floats and numpy's float64 are idealised as \<^typ>\<open>real\<close>; the one place where
  the source can produce a non-finite value (a division by \<open>num_clusters - 1 = 0\<close>) is kept
  by the type \<open>fval\<close>. Every exception of the source is a value of \<open>error\<close>.
\<close>

subsection \<open>Exceptions\<close>

datatype error =
    NoActiveUVMap       \<comment> \<open>ValueError raised by the add-on: no active UV map (lines 176, 211)\<close>
  | NumpyValueError     \<comment> \<open>ValueError raised inside numpy: reshape, min/max of an empty array, linspace\<close>
  | EmptySequence       \<comment> \<open>ValueError of the builtins min() and max() on an empty sequence\<close>
  | IndexError          \<comment> \<open>index out of bounds\<close>
  | UnboundLocalError   \<comment> \<open>a local variable read before any assignment\<close>

subsection \<open>numpy primitives used by the quantisation\<close>

text \<open>\<open>np.linspace(start, stop, num)\<close> with the default \<open>endpoint=True\<close>.\<close>

definition linspace :: "real \<Rightarrow> real \<Rightarrow> int \<Rightarrow> error + real list" where
  "linspace start stop num =
     (if num < 0 then Inl NumpyValueError
      else if num = 1 then Inr [start]
      else Inr (map (\<lambda>i. start + real i * ((stop - start) / (real_of_int num - 1)))
                    [0 ..< nat num]))"

text \<open>
  \<open>np.digitize(x, bins)\<close> with the default \<open>right=False\<close>, for the non-decreasing edges
  that \<open>linspace\<close> yields from a minimum to a maximum: the index \<open>i\<close> with
  \<open>bins[i-1] <= x < bins[i]\<close>, which is the number of edges that are \<open>\<le> x\<close>.
\<close>

definition digitize :: "real \<Rightarrow> real list \<Rightarrow> int" where
  "digitize x bins = int (length (filter (\<lambda>b. b \<le> x) bins))"

text \<open>The result of dividing an integer array by an integer: a float that may be non-finite.\<close>

datatype fval = Fin real | PosInf | NegInf | NaN

definition true_divide :: "int \<Rightarrow> int \<Rightarrow> fval" where
  "true_divide i d =
     (if d \<noteq> 0 then Fin (real_of_int i / real_of_int d)
      else if 0 < i then PosInf
      else if i < 0 then NegInf
      else NaN)"

text \<open>\<open>np.unique\<close> on reals: the sorted distinct values.\<close>

definition np_unique :: "real list \<Rightarrow> real list" where
  "np_unique xs = sort (remdups xs)"

text \<open>\<open>np.unique\<close> on floats: \<open>-inf\<close> first, the finite values, \<open>inf\<close>, one \<open>nan\<close> last.\<close>

definition finite_part :: "fval list \<Rightarrow> real list" where
  "finite_part xs = concat (map (\<lambda>x. case x of Fin r \<Rightarrow> [r] | _ \<Rightarrow> []) xs)"

definition np_unique_f :: "fval list \<Rightarrow> fval list" where
  "np_unique_f xs =
     (if NegInf \<in> set xs then [NegInf] else [])
     @ map Fin (np_unique (finite_part xs))
     @ (if PosInf \<in> set xs then [PosInf] else [])
     @ (if NaN \<in> set xs then [NaN] else [])"

subsection \<open>quantize_colors\<close>

text \<open>
  Lines 167-171. \<open>np.min\<close> of an empty array raises; \<open>linspace\<close> raises on a negative
  number of samples; the division by \<open>num_clusters - 1\<close> never raises.
\<close>

definition quantize_colors :: "real list \<Rightarrow> int \<Rightarrow> error + fval list" where
  "quantize_colors colors num_clusters =
     (if colors = [] then Inl NumpyValueError
      else
        let min_color = Min (set colors); max_color = Max (set colors) in
        case linspace min_color max_color (num_clusters + 1) of
          Inl e \<Rightarrow> Inl e
        | Inr bins \<Rightarrow>
            Inr (np_unique_f
                   (map (\<lambda>c. true_divide (digitize c bins - 1) (num_clusters - 1)) colors)))"

subsection \<open>The raster and the mesh\<close>

record image =
  width :: nat               \<comment> \<open>\<open>image.size[0]\<close>\<close>
  height :: nat              \<comment> \<open>\<open>image.size[1]\<close>\<close>
  channels :: nat            \<comment> \<open>\<open>image.channels\<close>\<close>
  pixels :: "real list"      \<comment> \<open>\<open>image.pixels[:]\<close>, the flat buffer\<close>

record mesh =
  polygons :: "nat list list"                \<comment> \<open>\<open>poly.loop_indices\<close> of each polygon\<close>
  loops :: "nat list"                        \<comment> \<open>\<open>mesh.loops[i].vertex_index\<close>\<close>
  uv_layer :: "(real \<times> real) list option"    \<comment> \<open>\<open>mesh.uv_layers.active.data[i].uv\<close>; None without an active layer\<close>

text \<open>A vertex group maps vertex indices to weights; an object holds its groups by name,
  in creation order.\<close>

type_synonym vgroup = "nat \<rightharpoonup> real"
type_synonym vgroups = "(string \<times> vgroup) list"

record object =
  data :: mesh
  vertex_groups :: vgroups

subsection \<open>Sampling the raster at a UV coordinate\<close>

text \<open>Python's \<open>int()\<close> on a float truncates toward zero.\<close>

definition py_int :: "real \<Rightarrow> int" where
  "py_int r = (if 0 \<le> r then \<lfloor>r\<rfloor> else \<lceil>r\<rceil>)"

text \<open>A numpy index into an axis of size \<open>n\<close>: a negative index counts from the end.\<close>

definition np_index :: "nat \<Rightarrow> int \<Rightarrow> error + nat" where
  "np_index n i =
     (if 0 \<le> i \<and> i < int n then Inr (nat i)
      else if - int n \<le> i \<and> i < 0 then Inr (nat (i + int n))
      else Inl IndexError)"

text \<open>\<open>reshape((height, width, channels))\<close> raises unless the buffer has that many entries.\<close>

definition reshape_ok :: "image \<Rightarrow> bool" where
  "reshape_ok img \<longleftrightarrow> length (pixels img) = height img * width img * channels img"

text \<open>\<open>pixels[y, x]\<close> of the reshaped buffer: the channel values of one pixel.\<close>

definition pixel_at :: "image \<Rightarrow> nat \<Rightarrow> nat \<Rightarrow> real list" where
  "pixel_at img y x =
     take (channels img) (drop ((y * width img + x) * channels img) (pixels img))"

definition mean :: "real list \<Rightarrow> real" where
  "mean xs = sum_list xs / real (length xs)"

text \<open>
  Lines 188-189, and again lines 224-225: the pixel coordinates of a UV coordinate and the
  intensity there. \<open>np.mean(pixels[y, x])\<close> averages every channel of the pixel.
\<close>

definition pixel_value_at :: "image \<Rightarrow> real \<times> real \<Rightarrow> error + real" where
  "pixel_value_at img uv =
     (let x = py_int (fst uv * (real (width img) - 1));
          y = py_int (snd uv * (real (height img) - 1))
      in case np_index (height img) y of
           Inl e \<Rightarrow> Inl e
         | Inr yi \<Rightarrow>
             (case np_index (width img) x of
                Inl e \<Rightarrow> Inl e
              | Inr xi \<Rightarrow>
                  if 1 < channels img then Inr (mean (pixel_at img yi xi))
                  else (case pixel_at img yi xi of
                          [] \<Rightarrow> Inl IndexError
                        | p # _ \<Rightarrow> Inr p)))"

subsection \<open>analyze_texture\<close>

text \<open>Lines 160-165: the distinct greyscale values of the image, from the first three
  channels of each pixel.\<close>

definition analyze_texture :: "image \<Rightarrow> error + real list" where
  "analyze_texture img =
     (if \<not> reshape_ok img then Inl NumpyValueError
      else
        let pxs = concat (map (\<lambda>y. map (\<lambda>x. pixel_at img y x) [0 ..< width img])
                              [0 ..< height img])
        in if 1 < channels img then Inr (np_unique (map (\<lambda>p. mean (take 3 p)) pxs))
           else if channels img = 0 then Inl IndexError
           else Inr (np_unique (concat (map (take 1) pxs))))"

subsection \<open>Vertex groups of the host object\<close>

text \<open>\<open>obj.vertex_groups.get(name) or obj.vertex_groups.new(name=name)\<close>: an existing group
  is reused, a missing one is appended, empty.\<close>

definition get_or_new :: "string \<Rightarrow> vgroups \<Rightarrow> vgroups" where
  "get_or_new name gs =
     (case map_of gs name of Some g \<Rightarrow> gs | None \<Rightarrow> gs @ [(name, Map.empty)])"

definition group_weights :: "string \<Rightarrow> vgroups \<Rightarrow> vgroup" where
  "group_weights name gs = (case map_of gs name of Some g \<Rightarrow> g | None \<Rightarrow> Map.empty)"

text \<open>The group object is mutated in place; here its new contents are stored under its name.\<close>

definition store_group :: "string \<Rightarrow> vgroup \<Rightarrow> vgroups \<Rightarrow> vgroups" where
  "store_group name g gs = map (\<lambda>(n, h). if n = name then (n, g) else (n, h)) gs"

subsection \<open>Group names\<close>

text \<open>The format \<open>{n:02d}\<close>: the decimal digits of \<open>n\<close>, padded with zeros to two characters.\<close>

definition digit_char :: "nat \<Rightarrow> char" where
  "digit_char d = char_of (48 + d)"

fun dec_digits :: "nat \<Rightarrow> string" where
  "dec_digits n =
     (if n < 10 then [digit_char n] else dec_digits (n div 10) @ [digit_char (n mod 10)])"

declare dec_digits.simps [simp del]

definition fmt02 :: "nat \<Rightarrow> string" where
  "fmt02 n = (let s = dec_digits n in replicate (2 - length s) (CHR ''0'') @ s)"

text \<open>Line 197: \<open>f"{base_group_name}.{groups_created+1:02d}"\<close>.\<close>

definition group_name :: "string \<Rightarrow> nat \<Rightarrow> string" where
  "group_name base_group_name groups_created =
     base_group_name @ ''.'' @ fmt02 (groups_created + 1)"

subsection \<open>assign_vertex_groups\<close>

text \<open>The dictionary \<open>vertex_group_assignments\<close>: a set of vertex indices for each level.
  A set is kept as a list without repetitions.\<close>

type_synonym assignments = "(real \<times> nat list) list"

text \<open>Line 190: \<open>min(unique_colors, key=lambda c: abs(c - pixel_value))\<close>, the first of the
  closest levels; \<open>min\<close> raises on an empty sequence.\<close>

definition closest_color :: "real list \<Rightarrow> real \<Rightarrow> error + real" where
  "closest_color unique_colors pixel_value =
     (case unique_colors of
        [] \<Rightarrow> Inl EmptySequence
      | c # cs \<Rightarrow>
          Inr (fold (\<lambda>c best. if \<bar>c - pixel_value\<bar> < \<bar>best - pixel_value\<bar> then c else best)
                 cs c))"

text \<open>Line 191: \<open>vertex_group_assignments[closest_color].add(vertex_index)\<close>.\<close>

definition add_vertex :: "real \<Rightarrow> nat \<Rightarrow> assignments \<Rightarrow> assignments" where
  "add_vertex color v asg =
     map (\<lambda>(k, vs). if k = color then (k, List.insert v vs) else (k, vs)) asg"

text \<open>
  Lines 184-191, over the loop indices of all polygons in order. The state is the dictionary
  and the variable \<open>pixel_value\<close>, which has no value before the first face-corner.
\<close>

fun assign_corners ::
  "nat list \<Rightarrow> (real \<times> real) list \<Rightarrow> image \<Rightarrow> real list \<Rightarrow> nat list \<Rightarrow>
   assignments \<times> real option \<Rightarrow> error + (assignments \<times> real option)" where
  "assign_corners lps uvs img unique_colors [] st = Inr st"
| "assign_corners lps uvs img unique_colors (loop_idx # rest) (asg, pv) =
     (if length lps \<le> loop_idx then Inl IndexError
      else if length uvs \<le> loop_idx then Inl IndexError
      else
        let vertex_index = lps ! loop_idx in
        case pixel_value_at img (uvs ! loop_idx) of
          Inl e \<Rightarrow> Inl e
        | Inr pixel_value \<Rightarrow>
            (case closest_color unique_colors pixel_value of
               Inl e \<Rightarrow> Inl e
             | Inr c \<Rightarrow>
                 assign_corners lps uvs img unique_colors rest
                   (add_vertex c vertex_index asg, Some pixel_value)))"

text \<open>
  Lines 199-202: the writes into one group. The weight is computed from \<open>pixel_value\<close> as
  the sampling loops left it; reading it when no face-corner was visited raises.
\<close>

definition add_vertices ::
  "real \<Rightarrow> real option \<Rightarrow> real \<Rightarrow> nat list \<Rightarrow> vgroup \<Rightarrow> error + vgroup" where
  "add_vertices color pv threshold vertex_indices g =
     (case pv of
        None \<Rightarrow> if vertex_indices = [] then Inr g else Inl UnboundLocalError
      | Some pixel_value \<Rightarrow>
          Inr (fold (\<lambda>vertex_index g.
                       let weight = 1 - \<bar>color - pixel_value\<bar>
                       in if threshold \<le> weight then g(vertex_index \<mapsto> weight) else g)
                 vertex_indices g))"

text \<open>Lines 193-203, over the levels in ascending order.\<close>

fun create_groups ::
  "real option \<Rightarrow> real \<Rightarrow> int \<Rightarrow> string \<Rightarrow> assignments \<Rightarrow> nat \<Rightarrow> vgroups \<Rightarrow>
   (error + bool) \<times> vgroups" where
  "create_groups pv threshold min_group_size base [] groups_created gs = (Inr True, gs)"
| "create_groups pv threshold min_group_size base ((color, vertex_indices) # rest)
     groups_created gs =
     (if min_group_size \<le> int (length vertex_indices) then
        let name = group_name base groups_created;
            gs1 = get_or_new name gs
        in case add_vertices color pv threshold vertex_indices (group_weights name gs1) of
             Inl e \<Rightarrow> (Inl e, gs1)
           | Inr g \<Rightarrow>
               create_groups pv threshold min_group_size base rest (groups_created + 1)
                 (store_group name g gs1)
      else create_groups pv threshold min_group_size base rest groups_created gs)"

text \<open>Lines 173-206. The result is the returned value or the exception, and the vertex
  groups of the object as the call leaves them.\<close>

definition assign_vertex_groups ::
  "object \<Rightarrow> real list \<Rightarrow> image \<Rightarrow> real \<Rightarrow> int \<Rightarrow> string \<Rightarrow> (error + bool) \<times> vgroups" where
  "assign_vertex_groups obj unique_colors img threshold min_group_size base_group_name =
     (case uv_layer (data obj) of
        None \<Rightarrow> (Inl NoActiveUVMap, vertex_groups obj)
      | Some uvs \<Rightarrow>
          if \<not> reshape_ok img then (Inl NumpyValueError, vertex_groups obj)
          else
            (case assign_corners (loops (data obj)) uvs img unique_colors
                    (concat (polygons (data obj)))
                    (map (\<lambda>c. (c, [])) (remdups unique_colors), None) of
               Inl e \<Rightarrow> (Inl e, vertex_groups obj)
             | Inr (asg, pv) \<Rightarrow>
                 create_groups pv threshold min_group_size base_group_name
                   (sort_key fst asg) 0 (vertex_groups obj)))"

subsection \<open>assign_weights_from_texture\<close>

text \<open>Lines 219-226: one \<open>(vertex_index, pixel_value)\<close> pair for each face-corner.\<close>

fun weight_corners ::
  "nat list \<Rightarrow> (real \<times> real) list \<Rightarrow> image \<Rightarrow> nat list \<Rightarrow> error + (nat \<times> real) list" where
  "weight_corners lps uvs img [] = Inr []"
| "weight_corners lps uvs img (loop_idx # rest) =
     (if length lps \<le> loop_idx then Inl IndexError
      else if length uvs \<le> loop_idx then Inl IndexError
      else
        case pixel_value_at img (uvs ! loop_idx) of
          Inl e \<Rightarrow> Inl e
        | Inr pixel_value \<Rightarrow>
            (case weight_corners lps uvs img rest of
               Inl e \<Rightarrow> Inl e
             | Inr ws \<Rightarrow> Inr ((lps ! loop_idx, pixel_value) # ws)))"

text \<open>Lines 229-235: the rescaling; \<open>min\<close> of no weights raises.\<close>

definition normalize_weights :: "(nat \<times> real) list \<Rightarrow> error + (nat \<times> real) list" where
  "normalize_weights weights =
     (if weights = [] then Inl EmptySequence
      else
        let min_weight = Min (set (map snd weights));
            max_weight = Max (set (map snd weights));
            weight_range = max_weight - min_weight
        in if 0 < weight_range
           then Inr (map (\<lambda>(idx, w). (idx, (w - min_weight) / weight_range)) weights)
           else Inr (map (\<lambda>(idx, w). (idx, 1)) weights))"

text \<open>Lines 208-241.\<close>

definition assign_weights_from_texture ::
  "object \<Rightarrow> image \<Rightarrow> string \<Rightarrow> bool \<Rightarrow> (error + bool) \<times> vgroups" where
  "assign_weights_from_texture obj img name normalize_flag =
     (case uv_layer (data obj) of
        None \<Rightarrow> (Inl NoActiveUVMap, vertex_groups obj)
      | Some uvs \<Rightarrow>
          if \<not> reshape_ok img then (Inl NumpyValueError, vertex_groups obj)
          else
            let gs1 = get_or_new name (vertex_groups obj) in
            (case weight_corners (loops (data obj)) uvs img (concat (polygons (data obj))) of
               Inl e \<Rightarrow> (Inl e, gs1)
             | Inr sampled \<Rightarrow>
                 (case (if normalize_flag then normalize_weights sampled else Inr sampled) of
                    Inl e \<Rightarrow> (Inl e, gs1)
                  | Inr weights \<Rightarrow>
                      (Inr True,
                       store_group name
                         (fold (\<lambda>(vertex_index, weight) g. g(vertex_index \<mapsto> weight))
                            weights (group_weights name gs1))
                         gs1))))"

subsection \<open>The contents written into a group\<close>

text \<open>The group \<open>g\<close> after every vertex of \<open>vs\<close> was given the weight of level \<open>c\<close>
  against the intensity \<open>p\<close>, where that weight reaches the threshold.\<close>

abbreviation written :: "real \<Rightarrow> real \<Rightarrow> real \<Rightarrow> nat list \<Rightarrow> vgroup \<Rightarrow> vgroup" where
  "written c p thr vs g \<equiv>
     (\<lambda>v. if v \<in> set vs \<and> thr \<le> 1 - \<bar>c - p\<bar> then Some (1 - \<bar>c - p\<bar>) else g v)"

subsection \<open>Example inputs\<close>

text \<open>One RGBA pixel, black and opaque.\<close>

definition rgba_pixel :: image where
  "rgba_pixel = \<lparr>width = 1, height = 1, channels = 4, pixels = [0, 0, 0, 1]\<rparr>"

text \<open>Two greyscale pixels in a row, and a flat row.\<close>

definition two_pixel_row :: image where
  "two_pixel_row = \<lparr>width = 2, height = 1, channels = 1, pixels = [0, 1 / 4]\<rparr>"

definition black_white_row :: image where
  "black_white_row = \<lparr>width = 2, height = 1, channels = 1, pixels = [0, 1]\<rparr>"

definition flat_row :: image where
  "flat_row = \<lparr>width = 2, height = 1, channels = 1, pixels = [1 / 2, 1 / 2]\<rparr>"

text \<open>One polygon of two face-corners: vertex 0 at the left pixel, vertex 1 at the right.\<close>

definition two_corner_mesh :: mesh where
  "two_corner_mesh = \<lparr>polygons = [[0, 1]], loops = [0, 1], uv_layer = Some [(0, 0), (1, 0)]\<rparr>"

definition two_corner_object :: object where
  "two_corner_object = \<lparr>data = two_corner_mesh, vertex_groups = []\<rparr>"

text \<open>Three greyscale pixels in a row, and a polygon of three face-corners in which vertex 0
  is met twice, at the left pixel and at the middle one, and vertex 1 at the right pixel.\<close>

definition three_pixel_row :: image where
  "three_pixel_row = \<lparr>width = 3, height = 1, channels = 1, pixels = [0, 1 / 2, 1]\<rparr>"

definition seam_mesh :: mesh where
  "seam_mesh =
     \<lparr>polygons = [[0, 1, 2]], loops = [0, 0, 1],
      uv_layer = Some [(0, 0), (1 / 2, 0), (1, 0)]\<rparr>"

definition seam_object :: object where
  "seam_object = \<lparr>data = seam_mesh, vertex_groups = []\<rparr>"

text \<open>The same polygon without a UV layer, on an object that already has a group.\<close>

definition no_uv_object :: object where
  "no_uv_object =
     \<lparr>data = \<lparr>polygons = [[0, 1]], loops = [0, 1], uv_layer = None\<rparr>,
      vertex_groups = [(''old'', Map.empty)]\<rparr>"

section \<open>Properties of the quantisation\<close>

lemmas quantize_defs = quantize_colors_def linspace_def digitize_def true_divide_def
  np_unique_f_def np_unique_def finite_part_def

lemma np_unique_replicate: "0 < n \<Longrightarrow> np_unique (replicate n x) = [x]"
proof -
  have "remdups (replicate (Suc m) x) = [x]" for m
    by (induction m) simp_all
  then show "0 < n \<Longrightarrow> np_unique (replicate n x) = [x]"
    by (cases n) (simp_all add: np_unique_def del: replicate_Suc)
qed

lemma flat_colors_all_equal:
  assumes "colors \<noteq> []" "Min (set colors) = Max (set colors)"
  shows "colors = replicate (length colors) (Min (set colors))"
proof -
  have "\<forall>c \<in> set colors. c = Min (set colors)"
  proof
    fix c assume c: "c \<in> set colors"
    have "Min (set colors) \<le> c" "c \<le> Max (set colors)" using c by simp_all
    with assms(2) show "c = Min (set colors)" by simp
  qed
  then show ?thesis by (simp add: replicate_length_same)
qed

text \<open>On a flat input every edge equals the one intensity, so \<open>digitize\<close> counts all
  \<open>K + 1\<close> edges and the single level is \<open>K / (K - 1)\<close>.\<close>

lemma quantize_colors_flat_value:
  assumes ne: "colors \<noteq> []" and flat: "Min (set colors) = Max (set colors)" and k: "2 \<le> K"
  shows "quantize_colors colors K = Inr [Fin (real_of_int K / (real_of_int K - 1))]"
proof -
  define v where "v = Min (set colors)"
  define n where "n = length colors"
  have cs: "colors = replicate n v" and n: "0 < n"
    using flat_colors_all_equal [OF ne flat] ne by (simp_all add: v_def n_def)
  have mm: "Min (set colors) = v" "Max (set colors) = v" using flat by (simp_all add: v_def)
  have bins: "linspace v v (K + 1) = Inr (replicate (nat (K + 1)) v)"
    using k by (simp add: linspace_def map_replicate_const)
  have dig: "digitize v (replicate (nat (K + 1)) v) - 1 = K"
    using k by (simp add: digitize_def)
  have td: "true_divide K (K - 1) = Fin (real_of_int K / (real_of_int K - 1))"
    using k by (simp add: true_divide_def)
  have "quantize_colors colors K =
        Inr (np_unique_f (map (\<lambda>c. true_divide (digitize c (replicate (nat (K + 1)) v) - 1)
                                   (K - 1)) colors))"
    using ne by (simp add: quantize_colors_def mm bins)
  also have "map (\<lambda>c. true_divide (digitize c (replicate (nat (K + 1)) v) - 1) (K - 1)) colors
           = replicate n (Fin (real_of_int K / (real_of_int K - 1)))"
    by (subst cs) (simp add: dig td map_replicate_const del: replicate_Suc)
  also have "np_unique_f (replicate n (Fin (real_of_int K / (real_of_int K - 1))))
           = [Fin (real_of_int K / (real_of_int K - 1))]"
    using n by (simp add: np_unique_f_def finite_part_def map_replicate_const
        np_unique_replicate concat_replicate_trivial)
  finally show ?thesis .
qed

text \<open>
  C1. The claim: for a non-empty set of intensities and \<open>K \<ge> 2\<close> the quantisation returns
  between 1 and \<open>K\<close> levels, each in \<open>[0,1]\<close>, strictly increasing. The largest intensity
  equals the last of the \<open>K + 1\<close> edges, so \<open>digitize\<close> gives it \<open>K + 1\<close> and its level
  is \<open>K / (K - 1)\<close>: on the intensities 0 and 1 with \<open>K = 2\<close> the code returns the levels
  0 and 2, and on 0, 1/2 and 1 it returns three levels.
\<close>

theorem quantize_colors_top_level_above_one:
  "quantize_colors [0, 1] 2 = Inr [Fin 0, Fin 2] \<and>
   quantize_colors [0, 1 / 2, 1] 2 = Inr [Fin 0, Fin 1, Fin 2]"
  by (simp add: quantize_defs upt_rec)

text \<open>
  C2, as the spec states it: the flat input \<open>{0.5}\<close> with \<open>K = 4\<close> gives the level set
  \<open>{0.0}\<close>. The code returns the single level 4/3.
\<close>

theorem quantize_colors_flat_not_zero:
  "quantize_colors [1 / 2] 4 = Inr [Fin (4 / 3)] \<and> quantize_colors [1 / 2] 4 \<noteq> Inr [Fin 0]"
  by (simp add: quantize_defs upt_rec)

text \<open>
  C2, amended: for a non-empty input whose minimum equals its maximum and \<open>K \<ge> 2\<close>, the
  quantisation does not fault and returns a level set of exactly one finite level.
\<close>

theorem quantize_colors_flat_single_level:
  assumes "colors \<noteq> []" "Min (set colors) = Max (set colors)" "2 \<le> K"
  shows "\<exists>l. quantize_colors colors K = Inr [Fin l]"
  using quantize_colors_flat_value [OF assms] by blast

theorem quantize_colors_flat_single_level_witness:
  "[1 / 2 :: real] \<noteq> [] \<and> Min (set [1 / 2 :: real]) = Max (set [1 / 2]) \<and> (2::int) \<le> 4 \<and>
   (\<exists>l. quantize_colors [1 / 2] 4 = Inr [Fin l])"
  using quantize_colors_flat_single_level [of "[1 / 2]" 4] by simp

text \<open>
  C9, as the spec states it: with \<open>K < 2\<close> the quantisation fails. With \<open>K = 0\<close> on the
  input \<open>{0.5}\<close> the code returns the level 0.
\<close>

theorem quantize_colors_zero_clusters_returns:
  "quantize_colors [1 / 2] 0 = Inr [Fin 0]"
  by (simp add: quantize_defs upt_rec)

text \<open>
  C9, amended: the quantisation checks nothing about \<open>K\<close> itself. It fails, with a
  ValueError raised inside numpy, exactly when the input is empty or \<open>K \<le> -2\<close>; for
  every other \<open>K\<close>, also -1, 0 and 1, it returns a result.
\<close>

theorem quantize_colors_fails_iff:
  "(quantize_colors colors K = Inl NumpyValueError) = (colors = [] \<or> K \<le> - 2) \<and>
   isl (quantize_colors colors K) = (colors = [] \<or> K \<le> - 2)"
  by (auto simp add: quantize_colors_def linspace_def Let_def)

section \<open>Properties of the sampling\<close>

lemmas sample_defs = pixel_value_at_def py_int_def np_index_def pixel_at_def mean_def

lemmas example_defs = rgba_pixel_def two_pixel_row_def flat_row_def two_corner_mesh_def
  two_corner_object_def no_uv_object_def

text \<open>
  C4. The claim: with more than one channel the samplers of both engines use the mean of the
  first three channels only. Their code averages every channel of the pixel, while
  \<open>analyze_texture\<close> averages the first three: on one opaque black RGBA pixel the sampled
  intensity is 1/4 and the analysed greyscale value is 0.
\<close>

theorem sampler_averages_all_channels:
  "pixel_value_at \<lparr>width = 1, height = 1, channels = 4, pixels = [0, 0, 0, 1]\<rparr> (0, 0) = Inr (1 / 4) \<and>
   analyze_texture \<lparr>width = 1, height = 1, channels = 4, pixels = [0, 0, 0, 1]\<rparr> = Inr [0]"
  by (simp add: sample_defs analyze_texture_def reshape_ok_def np_unique_def)

text \<open>
  C5, as the spec states it: UV coordinates are clamped into the unit square, so sampling
  never faults and an out-of-range coordinate reads the border pixel. The code does not
  clamp: \<open>u = 2\<close> on a raster two pixels wide raises IndexError, and \<open>u = -1/2\<close> on one
  three pixels wide gives the pixel index -1, which reads the last column.
\<close>

theorem sampling_does_not_clamp:
  "pixel_value_at \<lparr>width = 2, height = 1, channels = 1, pixels = [0, 1]\<rparr> (2, 0) = Inl IndexError \<and>
   pixel_value_at \<lparr>width = 3, height = 1, channels = 1, pixels = [0, 1 / 2, 1]\<rparr> (- 1 / 2, 0) = Inr 1"
proof -
  have "\<lceil>- 1 :: real\<rceil> = - 1" using ceiling_of_int [of "- 1", where ?'a = real] by simp
  then show ?thesis by (simp add: sample_defs)
qed

lemma py_int_unit_range:
  assumes "0 \<le> u" "u \<le> 1" "0 < n"
  shows "0 \<le> py_int (u * (real n - 1))" "py_int (u * (real n - 1)) < int n"
    "py_int (u * (real n - 1)) = \<lfloor>u * (real n - 1)\<rfloor>"
proof -
  have nn: "0 \<le> real n - 1" using assms(3) by simp
  have ge: "0 \<le> u * (real n - 1)" using assms(1) nn by simp
  have le: "u * (real n - 1) \<le> real n - 1" by (rule mult_left_le_one_le [OF nn assms(1,2)])
  show eq: "py_int (u * (real n - 1)) = \<lfloor>u * (real n - 1)\<rfloor>" using ge by (simp add: py_int_def)
  show "0 \<le> py_int (u * (real n - 1))" using ge by (simp add: eq)
  have "u * (real n - 1) < real_of_int (int n)" using le by simp
  then show "py_int (u * (real n - 1)) < int n" unfolding eq by (simp only: floor_less_iff)
qed

lemma pixel_at_length:
  assumes "reshape_ok img" "y < height img" "x < width img"
  shows "length (pixel_at img y x) = channels img"
proof -
  have "y * width img + x < height img * width img"
  proof -
    have "y * width img + x < y * width img + width img" using assms(3) by simp
    also have "\<dots> = Suc y * width img" by simp
    also have "\<dots> \<le> height img * width img" using assms(2) by (intro mult_le_mono1) simp
    finally show ?thesis .
  qed
  then have "Suc (y * width img + x) \<le> height img * width img" by simp
  then have "Suc (y * width img + x) * channels img \<le> height img * width img * channels img"
    by (rule mult_le_mono1)
  then have "(y * width img + x) * channels img + channels img \<le> length (pixels img)"
    using assms(1) by (simp add: reshape_ok_def)
  then show ?thesis by (simp add: pixel_at_def)
qed

text \<open>
  C5, amended: for a UV coordinate inside the unit square, on a raster with at least one
  row, column and channel whose buffer has \<open>H * W * C\<close> entries, the pixel coordinates
  \<open>\<lfloor>u (W - 1)\<rfloor>\<close> and \<open>\<lfloor>v (H - 1)\<rfloor>\<close> lie inside the raster and sampling returns the mean
  of that pixel's channels without a fault. Coordinates outside the unit square are not
  clamped.
\<close>

theorem sampling_in_unit_square:
  assumes "reshape_ok img" "0 < width img" "0 < height img" "0 < channels img"
    and "0 \<le> u" "u \<le> 1" "0 \<le> v" "v \<le> 1"
  shows "nat \<lfloor>u * (real (width img) - 1)\<rfloor> < width img \<and>
         nat \<lfloor>v * (real (height img) - 1)\<rfloor> < height img \<and>
         pixel_value_at img (u, v) =
           Inr (mean (pixel_at img (nat \<lfloor>v * (real (height img) - 1)\<rfloor>)
                                   (nat \<lfloor>u * (real (width img) - 1)\<rfloor>)))"
proof -
  let ?x = "py_int (u * (real (width img) - 1))"
  let ?y = "py_int (v * (real (height img) - 1))"
  note X = py_int_unit_range [OF assms(5,6,2)]
  note Y = py_int_unit_range [OF assms(7,8,3)]
  have xi: "np_index (width img) ?x = Inr (nat ?x)" using X by (simp add: np_index_def)
  have yi: "np_index (height img) ?y = Inr (nat ?y)" using Y by (simp add: np_index_def)
  have xl: "nat ?x < width img" using X(1,2) by (simp only: nat_less_iff)
  have yl: "nat ?y < height img" using Y(1,2) by (simp only: nat_less_iff)
  have len: "length (pixel_at img (nat ?y) (nat ?x)) = channels img"
    using pixel_at_length [OF assms(1) yl xl] .
  have one: "channels img = 1 \<Longrightarrow>
      (case pixel_at img (nat ?y) (nat ?x) of [] \<Rightarrow> Inl IndexError | p # _ \<Rightarrow> Inr p)
       = Inr (mean (pixel_at img (nat ?y) (nat ?x)))"
    using len by (cases "pixel_at img (nat ?y) (nat ?x)") (simp_all add: mean_def)
  have "pixel_value_at img (u, v) = Inr (mean (pixel_at img (nat ?y) (nat ?x)))"
  proof (cases "1 < channels img")
    case True
    then show ?thesis by (simp add: pixel_value_at_def xi yi)
  next
    case False
    then have "channels img = 1" using assms(4) by simp
    then show ?thesis using one by (simp add: pixel_value_at_def xi yi)
  qed
  then show ?thesis using xl yl by (simp only: X(3) Y(3) simp_thms)
qed

theorem sampling_in_unit_square_witness:
  "reshape_ok two_pixel_row \<and> 0 < width two_pixel_row \<and> 0 < height two_pixel_row \<and>
   0 < channels two_pixel_row \<and> (0::real) \<le> 1 \<and> (1::real) \<le> 1 \<and> (0::real) \<le> 0 \<and> (0::real) \<le> 1 \<and>
   pixel_value_at two_pixel_row (1, 0) = Inr (1 / 4)"
proof -
  have h: "reshape_ok two_pixel_row" "0 < width two_pixel_row" "0 < height two_pixel_row"
    "0 < channels two_pixel_row"
    by (simp_all add: example_defs reshape_ok_def)
  have "pixel_value_at two_pixel_row (1, 0) =
        Inr (mean (pixel_at two_pixel_row (nat \<lfloor>0 * (real (height two_pixel_row) - 1)\<rfloor>)
                     (nat \<lfloor>1 * (real (width two_pixel_row) - 1)\<rfloor>)))"
    using sampling_in_unit_square [OF h, of 1 0] by simp
  also have "\<dots> = Inr (1 / 4)" by (simp add: example_defs pixel_at_def mean_def)
  finally show ?thesis using h by simp
qed

section \<open>Properties of the engines\<close>

text \<open>
  C6. On a mesh without an active UV layer both engines raise the no-active-UV-map error
  and leave the vertex groups of the object as they were.
\<close>

theorem missing_uv_layer_fails_unchanged:
  assumes "uv_layer (data obj) = None"
  shows "assign_vertex_groups obj unique_colors img threshold min_group_size base
           = (Inl NoActiveUVMap, vertex_groups obj) \<and>
         assign_weights_from_texture obj img name normalize_flag
           = (Inl NoActiveUVMap, vertex_groups obj)"
  using assms by (simp add: assign_vertex_groups_def assign_weights_from_texture_def)

theorem missing_uv_layer_fails_unchanged_witness:
  "uv_layer (data no_uv_object) = None \<and>
   assign_vertex_groups no_uv_object [0, 1] two_pixel_row (1 / 4) 1 ''group''
     = (Inl NoActiveUVMap, vertex_groups no_uv_object) \<and>
   assign_weights_from_texture no_uv_object two_pixel_row ''Texture_Weights'' True
     = (Inl NoActiveUVMap, vertex_groups no_uv_object)"
proof -
  have h: "uv_layer (data no_uv_object) = None" by (simp add: example_defs)
  show ?thesis using h missing_uv_layer_fails_unchanged [OF h] by simp
qed

section \<open>Properties of the group assignment\<close>

subsection \<open>Group names are distinct\<close>

text \<open>Reading the digits back gives the number, so the format is injective.\<close>

lemma digit_char_value: "d < 10 \<Longrightarrow> of_char (digit_char d) = 48 + d"
  by (simp add: digit_char_def)

lemma read_dec_digits:
  "foldl (\<lambda>a c. 10 * a + (of_char c - 48)) (0::nat) (dec_digits n) = n"
proof (induction n rule: dec_digits.induct)
  case (1 n)
  show ?case
  proof (cases "n < 10")
    case True
    then show ?thesis by (subst dec_digits.simps) (simp add: digit_char_value)
  next
    case False
    have "n mod 10 < 10" by simp
    then have d: "of_char (digit_char (n mod 10)) = 48 + n mod 10" by (rule digit_char_value)
    show ?thesis using False 1 [OF False]
      by (subst dec_digits.simps) (simp add: d)
  qed
qed

lemma read_zeros:
  "foldl (\<lambda>a c. 10 * a + (of_char c - 48)) (0::nat) (replicate k (CHR ''0'') @ s)
   = foldl (\<lambda>a c. 10 * a + (of_char c - 48)) 0 s"
  by (induction k) simp_all

lemma read_fmt02: "foldl (\<lambda>a c. 10 * a + (of_char c - 48)) (0::nat) (fmt02 n) = n"
  by (simp add: fmt02_def Let_def read_zeros read_dec_digits del: foldl_append)

lemma fmt02_inj: "fmt02 n = fmt02 m \<Longrightarrow> n = m"
  by (metis read_fmt02)

lemma group_name_inj: "group_name base n = group_name base m \<longleftrightarrow> n = m"
  using fmt02_inj by (auto simp add: group_name_def)

subsection \<open>Writing into the groups of the object\<close>

lemma fold_write_weight:
  "fold (\<lambda>v g. if T then g(v \<mapsto> w) else g) vs g = (\<lambda>v. if v \<in> set vs \<and> T then Some w else g v)"
  by (induction vs arbitrary: g) (auto simp add: fun_eq_iff)

lemma add_vertices_Some:
  "add_vertices c (Some p) thr vs g = Inr (written c p thr vs g)"
  by (simp add: add_vertices_def Let_def fold_write_weight)

lemma map_fst_store_group [simp]: "map fst (store_group name g gs) = map fst gs"
  by (simp add: store_group_def split_def comp_def if_distrib cong: if_cong)

lemma map_fst_get_or_new:
  "map fst (get_or_new name gs) = map fst gs @ (if name \<in> set (map fst gs) then [] else [name])"
proof (cases "map_of gs name")
  case None
  then have "name \<notin> fst ` set gs" by (simp add: map_of_eq_None_iff)
  then show ?thesis using None by (simp add: get_or_new_def)
next
  case (Some g)
  then have "(name, g) \<in> set gs" by (rule map_of_SomeD)
  then have "name \<in> fst ` set gs" by force
  then show ?thesis using Some by (simp add: get_or_new_def)
qed

lemma store_group_Nil: "store_group name g [] = []"
  by (simp add: store_group_def)

lemma store_group_Cons:
  "store_group name g ((n, h) # gs) =
     (if n = name then (n, g) else (n, h)) # store_group name g gs"
  by (simp add: store_group_def)

lemma map_of_store_group:
  "map_of (store_group name g gs) nm =
     (if nm = name \<and> name \<in> fst ` set gs then Some g else map_of gs nm)"
proof (induction gs)
  case Nil
  show ?case by (simp add: store_group_Nil)
next
  case (Cons a gs)
  obtain n h where a: "a = (n, h)" by (cases a)
  show ?case unfolding a using Cons by (force simp add: store_group_Cons)
qed

lemma map_of_get_or_new:
  "map_of (get_or_new name gs) nm =
     (if nm = name \<and> name \<notin> set (map fst gs) then Some Map.empty else map_of gs nm)"
proof (cases "map_of gs name")
  case None
  then have nin: "name \<notin> fst ` set gs" by (simp add: map_of_eq_None_iff)
  have "map_of (get_or_new name gs) nm = (if nm = name then Some Map.empty else map_of gs nm)"
    using None by (cases "map_of gs nm") (auto simp add: get_or_new_def map_add_def)
  then show ?thesis using nin by simp
next
  case (Some g)
  then have "(name, g) \<in> set gs" by (rule map_of_SomeD)
  then have "name \<in> fst ` set gs" by force
  then show ?thesis using Some by (simp add: get_or_new_def)
qed

lemma group_weights_get_or_new [simp]:
  "group_weights nm (get_or_new name gs) = group_weights nm gs"
proof (cases "nm = name \<and> name \<notin> set (map fst gs)")
  case True
  then have "map_of gs nm = None" by (simp add: map_of_eq_None_iff)
  then show ?thesis using True by (simp add: group_weights_def map_of_get_or_new)
next
  case False
  then show ?thesis by (auto simp add: group_weights_def map_of_get_or_new)
qed

lemma map_of_touch:
  "map_of (store_group name g (get_or_new name gs)) nm = (if nm = name then Some g else map_of gs nm)"
proof -
  have "set (map fst (get_or_new name gs)) = insert name (fst ` set gs)"
    by (auto simp add: map_fst_get_or_new)
  then have "name \<in> fst ` set (get_or_new name gs)" by simp
  then show ?thesis by (auto simp add: map_of_store_group map_of_get_or_new)
qed

lemma create_groups_Cons_Some:
  "create_groups (Some p) thr msz base ((c, vs) # rest) n gs =
     (if msz \<le> int (length vs)
      then create_groups (Some p) thr msz base rest (Suc n)
             (store_group (group_name base n)
                (written c p thr vs (group_weights (group_name base n) gs))
                (get_or_new (group_name base n) gs))
      else create_groups (Some p) thr msz base rest n gs)"
  by (simp add: Let_def add_vertices_Some cong: if_cong)

subsection \<open>The loop over the levels\<close>

lemma create_groups_fst:
  "fst (create_groups (Some p) thr msz base lv n gs) = Inr True"
proof (induction lv arbitrary: n gs)
  case Nil
  show ?case by simp
next
  case (Cons a lv)
  obtain c vs where a: "a = (c, vs)" by (cases a)
  show ?case unfolding a by (simp only: create_groups_Cons_Some Cons split: if_split) simp
qed

lemma create_groups_unchanged:
  assumes "nm \<notin> group_name base ` {n ..< n + length (filter (\<lambda>(c, vs). msz \<le> int (length vs)) lv)}"
  shows "map_of (snd (create_groups (Some p) thr msz base lv n gs)) nm = map_of gs nm"
  using assms
proof (induction lv arbitrary: n gs)
  case Nil
  show ?case by simp
next
  case (Cons a lv)
  obtain c vs where a: "a = (c, vs)" by (cases a)
  let ?q = "\<lambda>(c, vs). msz \<le> int (length vs)"
  show ?case
  proof (cases "msz \<le> int (length vs)")
    case True
    let ?gs2 = "store_group (group_name base n)
                (written c p thr vs (group_weights (group_name base n) gs))
                (get_or_new (group_name base n) gs)"
    have len: "length (filter ?q (a # lv)) = Suc (length (filter ?q lv))"
      using True by (simp add: a)
    have sub: "{Suc n ..< Suc n + length (filter ?q lv)} \<subseteq> {n ..< n + length (filter ?q (a # lv))}"
      unfolding len by auto
    have nm': "nm \<notin> group_name base ` {Suc n ..< Suc n + length (filter ?q lv)}"
      using Cons.prems sub by blast
    have ne: "nm \<noteq> group_name base n"
      using Cons.prems unfolding len by auto
    have "map_of (snd (create_groups (Some p) thr msz base (a # lv) n gs)) nm
          = map_of (snd (create_groups (Some p) thr msz base lv (Suc n) ?gs2)) nm"
      unfolding a using True by (simp only: create_groups_Cons_Some if_True)
    also have "\<dots> = map_of ?gs2 nm" by (rule Cons.IH [OF nm'])
    also have "\<dots> = map_of gs nm" using ne by (simp add: map_of_touch)
    finally show ?thesis .
  next
    case False
    have len: "length (filter ?q (a # lv)) = length (filter ?q lv)"
      using False by (simp add: a)
    have "map_of (snd (create_groups (Some p) thr msz base (a # lv) n gs)) nm
          = map_of (snd (create_groups (Some p) thr msz base lv n gs)) nm"
      unfolding a using False by (simp only: create_groups_Cons_Some if_False)
    also have "\<dots> = map_of gs nm" using Cons.prems unfolding len by (rule Cons.IH)
    finally show ?thesis .
  qed
qed

lemma create_groups_names:
  "map fst (snd (create_groups (Some p) thr msz base lv n gs)) =
     map fst gs @ filter (\<lambda>nm. nm \<notin> set (map fst gs))
       (map (group_name base) [n ..< n + length (filter (\<lambda>(c, vs). msz \<le> int (length vs)) lv)])"
proof (induction lv arbitrary: n gs)
  case Nil
  show ?case by simp
next
  case (Cons a lv)
  obtain c vs where a: "a = (c, vs)" by (cases a)
  let ?q = "\<lambda>(c, vs). msz \<le> int (length vs)"
  let ?k = "length (filter ?q lv)"
  let ?R = "map (group_name base) [Suc n ..< Suc n + ?k]"
  let ?K = "set (map fst gs)"
  show ?case
  proof (cases "msz \<le> int (length vs)")
    case True
    let ?gs2 = "store_group (group_name base n)
                (written c p thr vs (group_weights (group_name base n) gs))
                (get_or_new (group_name base n) gs)"
    have len: "length (filter ?q (a # lv)) = Suc ?k" using True by (simp add: a)
    have "[n ..< n + Suc ?k] = n # [Suc n ..< n + Suc ?k]" by (rule upt_conv_Cons) simp
    then have upt: "[n ..< n + Suc ?k] = n # [Suc n ..< Suc n + ?k]"
      by (simp only: add_Suc_right add_Suc)
    have keys2: "map fst ?gs2 = map fst gs @ (if group_name base n \<in> ?K then [] else [group_name base n])"
      by (simp add: map_fst_get_or_new)
    have notin: "group_name base n \<notin> set ?R" by (auto simp add: group_name_inj)
    have filt: "filter (\<lambda>nm. nm \<notin> set (map fst ?gs2)) ?R = filter (\<lambda>nm. nm \<notin> ?K) ?R"
    proof (rule filter_cong [OF refl])
      fix nm assume "nm \<in> set ?R"
      then have "nm \<noteq> group_name base n" using notin by blast
      then show "(nm \<notin> set (map fst ?gs2)) = (nm \<notin> ?K)" unfolding keys2 by auto
    qed
    have "map fst (snd (create_groups (Some p) thr msz base (a # lv) n gs))
          = map fst (snd (create_groups (Some p) thr msz base lv (Suc n) ?gs2))"
      unfolding a using True by (simp only: create_groups_Cons_Some if_True)
    also have "\<dots> = map fst ?gs2 @ filter (\<lambda>nm. nm \<notin> set (map fst ?gs2)) ?R" by (rule Cons.IH)
    also have "\<dots> = map fst ?gs2 @ filter (\<lambda>nm. nm \<notin> ?K) ?R" by (simp only: filt)
    also have "\<dots> = (map fst gs @ (if group_name base n \<in> ?K then [] else [group_name base n]))
                     @ filter (\<lambda>nm. nm \<notin> ?K) ?R"
      by (simp only: keys2)
    also have "\<dots> = map fst gs @ filter (\<lambda>nm. nm \<notin> ?K) (map (group_name base) [n ..< n + Suc ?k])"
      unfolding upt by simp
    finally show ?thesis unfolding len .
  next
    case False
    have len: "length (filter ?q (a # lv)) = ?k" using False by (simp add: a)
    have "map fst (snd (create_groups (Some p) thr msz base (a # lv) n gs))
          = map fst (snd (create_groups (Some p) thr msz base lv n gs))"
      unfolding a using False by (simp only: create_groups_Cons_Some if_False)
    then show ?thesis unfolding len Cons.IH .
  qed
qed

lemma group_weights_touch_other:
  "nm \<noteq> name \<Longrightarrow> group_weights nm (store_group name g (get_or_new name gs)) = group_weights nm gs"
  by (simp add: group_weights_def map_of_touch)

lemma create_groups_contents:
  assumes "k < length (filter (\<lambda>(c, vs). msz \<le> int (length vs)) lv)"
  shows "map_of (snd (create_groups (Some p) thr msz base lv n gs)) (group_name base (n + k)) =
           Some (written (fst (filter (\<lambda>(c, vs). msz \<le> int (length vs)) lv ! k)) p thr
                   (snd (filter (\<lambda>(c, vs). msz \<le> int (length vs)) lv ! k))
                   (group_weights (group_name base (n + k)) gs))"
  using assms
proof (induction lv arbitrary: n gs k)
  case Nil
  then show ?case by simp
next
  case (Cons a lv)
  obtain c vs where a: "a = (c, vs)" by (cases a)
  let ?q = "\<lambda>(c, vs). msz \<le> int (length vs)"
  show ?case
  proof (cases "msz \<le> int (length vs)")
    case True
    let ?gs2 = "store_group (group_name base n)
                (written c p thr vs (group_weights (group_name base n) gs))
                (get_or_new (group_name base n) gs)"
    have fl: "filter ?q (a # lv) = (c, vs) # filter ?q lv" using True by (simp add: a)
    have step: "create_groups (Some p) thr msz base (a # lv) n gs
                = create_groups (Some p) thr msz base lv (Suc n) ?gs2"
      unfolding a using True by (simp only: create_groups_Cons_Some if_True)
    show ?thesis
    proof (cases k)
      case 0
      have "group_name base n \<notin> group_name base ` {Suc n ..< Suc n + length (filter ?q lv)}"
        by (auto simp add: group_name_inj)
      then have "map_of (snd (create_groups (Some p) thr msz base lv (Suc n) ?gs2)) (group_name base n)
                 = map_of ?gs2 (group_name base n)"
        by (rule create_groups_unchanged)
      also have "\<dots> = Some (written c p thr vs (group_weights (group_name base n) gs))"
        by (simp add: map_of_touch)
      finally show ?thesis unfolding step fl 0 by (simp cong: if_cong)
    next
      case (Suc j)
      have j: "j < length (filter ?q lv)" using Cons.prems unfolding fl Suc by simp
      have ne: "group_name base (Suc n + j) \<noteq> group_name base n" by (simp add: group_name_inj)
      have "map_of (snd (create_groups (Some p) thr msz base lv (Suc n) ?gs2)) (group_name base (Suc n + j))
            = Some (written (fst (filter ?q lv ! j)) p thr (snd (filter ?q lv ! j))
                      (group_weights (group_name base (Suc n + j)) ?gs2))"
        by (rule Cons.IH [OF j])
      also have "group_weights (group_name base (Suc n + j)) ?gs2
                 = group_weights (group_name base (Suc n + j)) gs"
        by (rule group_weights_touch_other [OF ne])
      finally show ?thesis unfolding step fl Suc by (simp cong: if_cong)
    qed
  next
    case False
    have fl: "filter ?q (a # lv) = filter ?q lv" using False by (simp add: a)
    have step: "create_groups (Some p) thr msz base (a # lv) n gs
                = create_groups (Some p) thr msz base lv n gs"
      unfolding a using False by (simp only: create_groups_Cons_Some if_False)
    show ?thesis unfolding step fl using Cons.prems unfolding fl by (rule Cons.IH)
  qed
qed

lemma create_groups_None:
  assumes "\<forall>(c, vs) \<in> set lv. vs = []"
  shows "create_groups None thr msz base lv n gs = create_groups (Some p) thr msz base lv n gs"
  using assms
proof (induction lv arbitrary: n gs)
  case Nil
  show ?case by simp
next
  case (Cons a lv)
  obtain c vs where a: "a = (c, vs)" by (cases a)
  have vs: "vs = []" using Cons.prems by (simp add: a)
  have rest: "\<forall>(c, vs) \<in> set lv. vs = []" using Cons.prems by simp
  show ?case unfolding a vs
    by (simp add: Let_def add_vertices_def Cons.IH [OF rest])
qed

subsection \<open>The sampling loop and the whole call\<close>

lemma length_filter_insort_key:
  "length (filter P (insort_key f x xs)) = length (filter P (x # xs))"
  by (induction xs) auto

lemma length_filter_sort_key:
  "length (filter P (sort_key f xs)) = length (filter P xs)"
  by (induction xs) (simp_all add: length_filter_insort_key)

lemma assign_corners_last:
  assumes "assign_corners lps uvs img cols idxs (asg0, pv0) = Inr (asg, pv)" "idxs \<noteq> []"
  shows "\<exists>p. pixel_value_at img (uvs ! last idxs) = Inr p \<and> pv = Some p"
  using assms
proof (induction idxs arbitrary: asg0 pv0)
  case Nil
  then show ?case by simp
next
  case (Cons i idxs)
  from Cons.prems(1) obtain p c where
    p: "pixel_value_at img (uvs ! i) = Inr p" and
    c: "closest_color cols p = Inr c" and
    rest: "assign_corners lps uvs img cols idxs (add_vertex c (lps ! i) asg0, Some p) = Inr (asg, pv)"
    by (auto simp add: Let_def split: if_splits sum.splits)
  show ?case
  proof (cases "idxs = []")
    case True
    then show ?thesis using rest p by simp
  next
    case False
    then show ?thesis using Cons.IH [OF rest False] by simp
  qed
qed

lemma digit_char_0: "digit_char 0 = CHR ''0''"
proof -
  have "of_char (CHR ''0'') = (48::nat)" by simp
  then have "char_of (48::nat) = CHR ''0''" by (metis char_of_char)
  then show ?thesis by (simp add: digit_char_def)
qed

lemma fmt02_two_digits:
  "n < 100 \<Longrightarrow> fmt02 n = [digit_char (n div 10), digit_char (n mod 10)]"
proof -
  assume n: "n < 100"
  show ?thesis
  proof (cases "n < 10")
    case True
    then show ?thesis by (simp add: fmt02_def dec_digits.simps [of n] digit_char_0)
  next
    case False
    then have "n div 10 < 10" using n by simp
    then show ?thesis using False
      by (simp add: fmt02_def dec_digits.simps [of n] dec_digits.simps [of "n div 10"])
  qed
qed

lemma create_groups_pair:
  "create_groups (Some p) thr msz base lv n gs
     = (Inr True, snd (create_groups (Some p) thr msz base lv n gs))"
  using create_groups_fst [of p thr msz base lv n gs]
  by (cases "create_groups (Some p) thr msz base lv n gs") simp

lemma group_name_examples:
  "group_name ''group'' 0 = ''group.01''" "group_name ''group'' (Suc 0) = ''group.02''"
  by code_simp+

lemma corners_black_white:
  "assign_corners (loops (data two_corner_object)) [(0, 0), (1, 0)] black_white_row [0, 1 / 2, 1]
     (concat (polygons (data two_corner_object)))
     (map (\<lambda>c. (c, [])) (remdups [0, 1 / 2, 1]), None)
   = Inr ([(0, [0]), (1 / 2, []), (1, [1])], Some 1)"
  by (simp add: example_defs black_white_row_def sample_defs closest_color_def add_vertex_def)

lemma corners_two_pixel_row:
  "assign_corners (loops (data two_corner_object)) [(0, 0), (1, 0)] two_pixel_row [0, 1]
     (concat (polygons (data two_corner_object)))
     (map (\<lambda>c. (c, [])) (remdups [0, 1]), None)
   = Inr ([(0, [1, 0]), (1, [])], Some (1 / 4))"
  by (simp add: example_defs sample_defs closest_color_def add_vertex_def)

text \<open>
  C7. When the sampling pass succeeds, the call returns True, and with \<open>n\<close> the number of
  levels whose vertex set has at least \<open>min_group_size\<close> members, the groups of the object
  afterwards are the earlier ones followed by those of \<open>base.01\<close>, ..., \<open>base.n\<close> that were
  not there before: one name for each such level, counted over those levels only, all
  distinct, and written with two digits up to 99.
\<close>

theorem created_groups_named_sequentially:
  assumes uv: "uv_layer (data obj) = Some uvs"
    and rs: "reshape_ok img"
    and smp: "assign_corners (loops (data obj)) uvs img unique_colors
                (concat (polygons (data obj)))
                (map (\<lambda>c. (c, [])) (remdups unique_colors), None) = Inr (asg, pv)"
    and n: "n = length (filter (\<lambda>(c, vs). min_group_size \<le> int (length vs)) asg)"
  shows "\<exists>gs'. assign_vertex_groups obj unique_colors img threshold min_group_size base
                 = (Inr True, gs') \<and>
           map fst gs' = map fst (vertex_groups obj)
              @ filter (\<lambda>nm. nm \<notin> set (map fst (vertex_groups obj)))
                  (map (group_name base) [0 ..< n]) \<and>
           distinct (map (group_name base) [0 ..< n]) \<and>
           (\<forall>k < n. k < 99 \<longrightarrow>
              group_name base k
                = base @ ''.'' @ [digit_char (Suc k div 10), digit_char (Suc k mod 10)])"
proof -
  let ?lv = "sort_key fst asg"
  let ?gs = "vertex_groups obj"
  obtain p where run: "create_groups pv threshold min_group_size base ?lv 0 ?gs
                       = create_groups (Some p) threshold min_group_size base ?lv 0 ?gs"
  proof (cases "concat (polygons (data obj)) = []")
    case True
    then have "asg = map (\<lambda>c. (c, [])) (remdups unique_colors)" and pv: "pv = None"
      using smp [unfolded True] by simp_all
    then have "\<forall>(c, vs) \<in> set ?lv. vs = []" by auto
    then have "create_groups None threshold min_group_size base ?lv 0 ?gs
               = create_groups (Some 0) threshold min_group_size base ?lv 0 ?gs"
      by (rule create_groups_None)
    then show ?thesis using that pv by simp
  next
    case False
    from assign_corners_last [OF smp False] obtain p where "pv = Some p" by blast
    then show ?thesis using that by simp
  qed
  let ?gs' = "snd (create_groups (Some p) threshold min_group_size base ?lv 0 ?gs)"
  have res: "assign_vertex_groups obj unique_colors img threshold min_group_size base
             = (Inr True, ?gs')"
    using create_groups_pair [of p threshold min_group_size base ?lv 0 ?gs]
    by (simp add: assign_vertex_groups_def uv rs smp run)
  have names: "map fst ?gs' = map fst ?gs
              @ filter (\<lambda>nm. nm \<notin> set (map fst ?gs)) (map (group_name base) [0 ..< n])"
    by (simp only: create_groups_names length_filter_sort_key n add_0)
  have dist: "distinct (map (group_name base) [0 ..< n])"
    by (simp add: distinct_map inj_on_def group_name_inj)
  have fmt: "\<forall>k < n. k < 99 \<longrightarrow>
              group_name base k
                = base @ ''.'' @ [digit_char (Suc k div 10), digit_char (Suc k mod 10)]"
    by (simp add: group_name_def fmt02_two_digits)
  show ?thesis using res names dist fmt by blast
qed

theorem created_groups_named_sequentially_witness:
  "\<exists>gs'. assign_vertex_groups two_corner_object [0, 1 / 2, 1] black_white_row (1 / 4) 1 ''group''
           = (Inr True, gs') \<and>
         map fst gs' = [''group.01'', ''group.02'']"
proof -
  have uv: "uv_layer (data two_corner_object) = Some [(0, 0), (1, 0)]"
    by (simp add: example_defs)
  have rs: "reshape_ok black_white_row" by (simp add: black_white_row_def reshape_ok_def)
  have n: "(2::nat) = length (filter (\<lambda>(c, vs). (1::int) \<le> int (length vs))
                               [(0::real, [0::nat]), (1 / 2, []), (1, [1])])"
    by simp
  have vg: "vertex_groups two_corner_object = []" by (simp add: example_defs)
  have upt: "[0 ..< (2::nat)] = [0, 1]" by (simp add: upt_rec)
  show ?thesis
    using created_groups_named_sequentially [OF uv rs corners_black_white n, of "1 / 4" "''group''"]
    by (auto simp add: vg upt group_name_examples)
qed

text \<open>
  C10. When the sampling pass succeeds on a mesh with at least one face-corner, let \<open>p\<close> be
  the intensity sampled at the last face-corner of the last polygon. The group created for
  the \<open>k\<close>-th level, in ascending order, among those with enough vertices holds, at every
  vertex of that level's set, the one weight \<open>1 - \<bar>level - p\<bar>\<close> if it reaches the threshold,
  and is unchanged elsewhere: the weight depends on the level and on \<open>p\<close>, not on the vertex.
\<close>

theorem group_weights_from_final_corner:
  assumes uv: "uv_layer (data obj) = Some uvs"
    and rs: "reshape_ok img"
    and smp: "assign_corners (loops (data obj)) uvs img unique_colors
                (concat (polygons (data obj)))
                (map (\<lambda>c. (c, [])) (remdups unique_colors), None) = Inr (asg, pv)"
    and ne: "concat (polygons (data obj)) \<noteq> []"
    and lv: "lv = filter (\<lambda>(c, vs). min_group_size \<le> int (length vs)) (sort_key fst asg)"
  shows "\<exists>p gs'. pixel_value_at img (uvs ! last (concat (polygons (data obj)))) = Inr p \<and>
           assign_vertex_groups obj unique_colors img threshold min_group_size base
             = (Inr True, gs') \<and>
           (\<forall>k < length lv.
              map_of gs' (group_name base k)
                = Some (written (fst (lv ! k)) p threshold (snd (lv ! k))
                          (group_weights (group_name base k) (vertex_groups obj))))"
proof -
  let ?lv = "sort_key fst asg"
  let ?gs = "vertex_groups obj"
  from assign_corners_last [OF smp ne] obtain p where
    p: "pixel_value_at img (uvs ! last (concat (polygons (data obj)))) = Inr p" and pv: "pv = Some p"
    by blast
  let ?gs' = "snd (create_groups (Some p) threshold min_group_size base ?lv 0 ?gs)"
  have res: "assign_vertex_groups obj unique_colors img threshold min_group_size base
             = (Inr True, ?gs')"
    using create_groups_pair [of p threshold min_group_size base ?lv 0 ?gs]
    by (simp add: assign_vertex_groups_def uv rs smp pv)
  have cont: "\<forall>k < length lv.
              map_of ?gs' (group_name base k)
                = Some (written (fst (lv ! k)) p threshold (snd (lv ! k))
                          (group_weights (group_name base k) ?gs))"
  proof (intro allI impI)
    fix k assume "k < length lv"
    then have k: "k < length (filter (\<lambda>(c, vs). min_group_size \<le> int (length vs)) ?lv)"
      by (simp add: lv)
    show "map_of ?gs' (group_name base k)
                = Some (written (fst (lv ! k)) p threshold (snd (lv ! k))
                          (group_weights (group_name base k) ?gs))"
      using create_groups_contents [OF k, of p threshold base 0 ?gs] by (simp only: lv add_0)
  qed
  show ?thesis using p res cont by blast
qed

theorem group_weights_from_final_corner_witness:
  "\<exists>gs' g. assign_vertex_groups two_corner_object [0, 1] two_pixel_row (1 / 4) 1 ''group''
           = (Inr True, gs') \<and>
         map_of gs' ''group.01'' = Some g \<and> g 0 = Some (3 / 4) \<and> g 1 = Some (3 / 4)"
proof -
  have uv: "uv_layer (data two_corner_object) = Some [(0, 0), (1, 0)]"
    by (simp add: example_defs)
  have rs: "reshape_ok two_pixel_row" by (simp add: example_defs reshape_ok_def)
  have ne: "concat (polygons (data two_corner_object)) \<noteq> []" by (simp add: example_defs)
  have lv: "[(0::real, [1, 0::nat])]
            = filter (\<lambda>(c, vs). (1::int) \<le> int (length vs)) (sort_key fst [(0, [1, 0]), (1, [])])"
    by simp
  have last: "pixel_value_at two_pixel_row ([(0, 0), (1, 0)] ! last (concat (polygons (data two_corner_object))))
              = Inr (1 / 4)"
    by (simp add: example_defs sample_defs)
  from group_weights_from_final_corner [OF uv rs corners_two_pixel_row ne lv, of "1 / 4" "''group''"]
  obtain p gs' where
    p: "pixel_value_at two_pixel_row ([(0, 0), (1, 0)] ! last (concat (polygons (data two_corner_object)))) = Inr p"
    and run: "assign_vertex_groups two_corner_object [0, 1] two_pixel_row (1 / 4) 1 ''group'' = (Inr True, gs')"
    and cont: "\<forall>k < length [(0::real, [1, 0::nat])].
              map_of gs' (group_name ''group'' k)
                = Some (written (fst ([(0::real, [1, 0::nat])] ! k)) p (1 / 4) (snd ([(0::real, [1, 0::nat])] ! k))
                          (group_weights (group_name ''group'' k) (vertex_groups two_corner_object)))"
    by blast
  have pv: "p = 1 / 4" using p last by simp
  have "map_of gs' ''group.01''
        = Some (written 0 (1 / 4) (1 / 4) [1, 0] (group_weights ''group.01'' (vertex_groups two_corner_object)))"
    using cont [rule_format, of 0] by (simp add: pv group_name_examples cong: if_cong)
  then show ?thesis using run by simp
qed

text \<open>
  C3. The claim: the weight of a vertex in a group is 1 minus the distance between the
  group's level and the intensity last sampled at one of that vertex's own face-corners.
  On the two-pixel row with the levels 0 and 1, vertex 0 has one face-corner, which samples
  0 and is assigned to the level 0, so the claim gives it the weight 1; the code writes
  3/4, computed from the intensity 1/4 sampled at the face-corner of vertex 1.
\<close>

theorem group_weight_ignores_own_sample:
  "pixel_value_at two_pixel_row (0, 0) = Inr 0 \<and>
   closest_color [0, 1] 0 = Inr 0 \<and>
   fst (assign_vertex_groups two_corner_object [0, 1] two_pixel_row (1 / 4) 1 ''group'') = Inr True \<and>
   map (\<lambda>(nm, g). (nm, g 0, g 1))
     (snd (assign_vertex_groups two_corner_object [0, 1] two_pixel_row (1 / 4) 1 ''group''))
     = [(''group.01'', Some (3 / 4), Some (3 / 4))]"
proof -
  have uv: "uv_layer (data two_corner_object) = Some [(0, 0), (1, 0)]"
    and vg: "vertex_groups two_corner_object = []"
    by (simp_all add: example_defs)
  have rs: "reshape_ok two_pixel_row" by (simp add: example_defs reshape_ok_def)
  have run: "assign_vertex_groups two_corner_object [0, 1] two_pixel_row (1 / 4) 1 ''group''
        = create_groups (Some (1 / 4)) (1 / 4) 1 ''group'' [(0, [1, 0]), (1, [])] 0 []"
    apply (simp only: assign_vertex_groups_def uv rs corners_two_pixel_row vg
        option.case sum.case prod.case if_False simp_thms)
    apply simp
    done
  have a: "pixel_value_at two_pixel_row (0, 0) = Inr 0" by (simp add: example_defs sample_defs)
  have b: "closest_color [0, 1] 0 = Inr 0" by (simp add: closest_color_def)
  have c: "create_groups (Some (1 / 4)) (1 / 4) 1 ''group'' [(0, [1, 0]), (1, [])] 0 []
           = (Inr True, [(''group.01'', written 0 (1 / 4) (1 / 4) [1, 0] Map.empty)])"
    by (simp add: Let_def add_vertices_Some group_name_examples get_or_new_def store_group_def
        group_weights_def cong: if_cong)
  show ?thesis unfolding run c using a b by simp
qed

section \<open>Properties of the weight painting\<close>

text \<open>The writes of lines 237-238 replace: the group afterwards is the earlier group
  overridden by the pairs written, a later pair for a vertex winning over an earlier one.\<close>

lemma fold_writes:
  "fold (\<lambda>(vertex_index, weight) g. g(vertex_index \<mapsto> weight)) ws g = g ++ map_of (rev ws)"
proof (induction ws arbitrary: g)
  case Nil
  show ?case by simp
next
  case (Cons a ws)
  let ?F = "\<lambda>(vertex_index, weight) g. g(vertex_index \<mapsto> weight)"
  obtain v w where a: "a = (v, w)" by (cases a)
  have "fold ?F (a # ws) g = fold ?F ws (g(v \<mapsto> w))"
    unfolding a by (simp only: fold_simps prod.case)
  also have "\<dots> = g(v \<mapsto> w) ++ map_of (rev ws)" by (rule Cons.IH)
  also have "\<dots> = g ++ map_of (rev (a # ws))"
    unfolding a by (simp add: fun_eq_iff map_add_def split: option.splits)
  finally show ?case .
qed

lemma map_of_rev_in:
  assumes "v \<in> set (map fst ws)"
  shows "\<exists>w. map_of (rev ws) v = Some w \<and> w \<in> set (map snd ws)"
proof -
  have "v \<in> fst ` set (rev ws)" using assms by simp
  then obtain w where w: "map_of (rev ws) v = Some w"
    by (cases "map_of (rev ws) v") (simp_all add: map_of_eq_None_iff)
  then have "(v, w) \<in> set (rev ws)" by (rule map_of_SomeD)
  then have "w \<in> set (map snd ws)" by force
  then show ?thesis using w by blast
qed

lemma map_of_rev_distinct:
  assumes "distinct (map fst ws)" "w \<in> set (map snd ws)"
  shows "\<exists>v \<in> set (map fst ws). map_of (rev ws) v = Some w"
proof -
  obtain v where vw: "(v, w) \<in> set ws" using assms(2) by auto
  have "distinct (map fst (rev ws))" using assms(1) by (simp add: rev_map [symmetric])
  moreover have "(v, w) \<in> set (rev ws)" using vw by simp
  ultimately have "map_of (rev ws) v = Some w" by (rule map_of_is_SomeI)
  moreover have "v \<in> set (map fst ws)" using vw by force
  ultimately show ?thesis by blast
qed

lemma weight_corners_length:
  "weight_corners lps uvs img idxs = Inr ws \<Longrightarrow> length ws = length idxs"
  by (induction idxs arbitrary: ws) (auto split: if_splits sum.splits)

lemma normalize_weights_spread:
  assumes ne: "weights \<noteq> []"
    and lt: "Min (set (map snd weights)) < Max (set (map snd weights))"
  shows "\<exists>ws. normalize_weights weights = Inr ws \<and> map fst ws = map fst weights \<and>
           Min (set (map snd ws)) = 0 \<and> Max (set (map snd ws)) = 1 \<and>
           ws = map (\<lambda>(idx, w). (idx, (w - Min (set (map snd weights)))
                       / (Max (set (map snd weights)) - Min (set (map snd weights))))) weights"
proof -
  define S where "S = set (map snd weights)"
  define mn where "mn = Min S"
  define r where "r = Max S - Min S"
  define f where "f = (\<lambda>w. (w - mn) / r)"
  define ws where "ws = map (\<lambda>(idx, w). (idx, f w)) weights"
  have fin: "finite S" and nemp: "S \<noteq> {}" using ne by (simp_all add: S_def)
  have r: "0 < r" using lt by (simp add: r_def S_def)
  have mono: "mono f" using r by (auto simp add: mono_def f_def divide_right_mono)
  have run: "normalize_weights weights = Inr ws"
    using ne r by (simp add: normalize_weights_def Let_def ws_def f_def mn_def r_def S_def)
  have img: "set (map snd ws) = f ` S"
    by (simp add: ws_def S_def split_def comp_def image_image)
  have "Min (set (map snd ws)) = f (Min S)"
    unfolding img by (rule mono_Min_commute [OF mono fin nemp, symmetric])
  moreover have "f (Min S) = 0" by (simp add: f_def mn_def)
  ultimately have mn0: "Min (set (map snd ws)) = 0" by (rule trans)
  have "Max (set (map snd ws)) = f (Max S)"
    unfolding img by (rule mono_Max_commute [OF mono fin nemp, symmetric])
  moreover have "f (Max S) = 1" using r by (simp add: f_def mn_def r_def)
  ultimately have mx1: "Max (set (map snd ws)) = 1" by (rule trans)
  have keys: "map fst ws = map fst weights" by (simp add: ws_def split_def comp_def)
  have form: "ws = map (\<lambda>(idx, w). (idx, (w - Min (set (map snd weights)))
                       / (Max (set (map snd weights)) - Min (set (map snd weights))))) weights"
    by (simp only: ws_def f_def mn_def r_def S_def)
  show ?thesis using run keys mn0 mx1 form by blast
qed

lemma normalize_weights_flat:
  assumes ne: "weights \<noteq> []"
    and eq: "Min (set (map snd weights)) = Max (set (map snd weights))"
  shows "normalize_weights weights = Inr (map (\<lambda>(idx, w). (idx, 1)) weights)"
  using ne eq by (simp add: normalize_weights_def Let_def)

lemma sampled_two_pixel_row:
  "weight_corners (loops (data two_corner_object)) [(0, 0), (1, 0)] two_pixel_row
     (concat (polygons (data two_corner_object))) = Inr [(0, 0), (1, 1 / 4)]"
  by (simp add: example_defs sample_defs)

lemma sampled_flat_row:
  "weight_corners (loops (data two_corner_object)) [(0, 0), (1, 0)] flat_row
     (concat (polygons (data two_corner_object))) = Inr [(0, 1 / 2), (1, 1 / 2)]"
  by (simp add: example_defs sample_defs)


lemma sampled_seam:
  "weight_corners (loops (data seam_object)) [(0, 0), (1 / 2, 0), (1, 0)] three_pixel_row
     (concat (polygons (data seam_object))) = Inr [(0, 0), (0, 1 / 2), (1, 1)]"
  by (simp add: seam_object_def seam_mesh_def three_pixel_row_def sample_defs)

lemma paint_result:
  assumes uv: "uv_layer (data obj) = Some uvs"
    and rs: "reshape_ok img"
    and smp: "weight_corners (loops (data obj)) uvs img (concat (polygons (data obj))) = Inr sampled"
    and nw: "normalize_weights sampled = Inr ws"
  shows "fst (assign_weights_from_texture obj img name True) = Inr True"
    and "map_of (snd (assign_weights_from_texture obj img name True)) name
           = Some (group_weights name (vertex_groups obj) ++ map_of (rev ws))"
  by (simp_all add: assign_weights_from_texture_def uv rs smp nw Let_def map_of_touch fold_writes)

text \<open>
  C8, as the spec states it: with \<open>normalize = True\<close> and sampled intensities of nonzero range,
  the weights the call puts out have the minimum 0 and the maximum 1. On the mesh whose
  vertex 0 is met by two face-corners, sampling 0 and then 1/2, and whose vertex 1 samples 1,
  the rescaled samples are 0, 1/2 and 1, but the second write for vertex 0 replaces the
  first: the group holds 1/2 for vertex 0 and 1 for vertex 1, and no weight 0.
\<close>

theorem seam_vertex_loses_zero_weight:
  "weight_corners (loops (data seam_object)) [(0, 0), (1 / 2, 0), (1, 0)] three_pixel_row
     (concat (polygons (data seam_object))) = Inr [(0, 0), (0, 1 / 2), (1, 1)] \<and>
   fst (assign_weights_from_texture seam_object three_pixel_row ''Texture_Weights'' True) = Inr True \<and>
   map_of (snd (assign_weights_from_texture seam_object three_pixel_row ''Texture_Weights'' True))
     ''Texture_Weights'' = Some [0 \<mapsto> 1 / 2, 1 \<mapsto> 1]"
proof -
  have uv: "uv_layer (data seam_object) = Some [(0, 0), (1 / 2, 0), (1, 0)]"
    and vg: "vertex_groups seam_object = []"
    by (simp_all add: seam_object_def seam_mesh_def)
  have rs: "reshape_ok three_pixel_row" by (simp add: three_pixel_row_def reshape_ok_def)
  have nw: "normalize_weights [(0, 0), (0, 1 / 2), (1, 1)] = Inr [(0, 0), (0, 1 / 2), (1, 1)]"
    by (simp add: normalize_weights_def)
  have "group_weights ''Texture_Weights'' [] ++ map_of (rev [(0::nat, 0::real), (0, 1 / 2), (1, 1)])
        = [0 \<mapsto> 1 / 2, 1 \<mapsto> 1]"
    by (simp add: group_weights_def fun_eq_iff map_add_def)
  then show ?thesis
    using paint_result [OF uv rs sampled_seam nw, of "''Texture_Weights''"] sampled_seam
    by (simp add: vg)
qed

text \<open>
  C8, amended. Weight painting with \<open>normalize = True\<close> on a mesh with at least one
  face-corner, when sampling succeeds, returns True and leaves in the group, for every vertex,
  the rescaled sample of the last face-corner of that vertex, and the earlier weight for a
  vertex no face-corner meets. If the sampled intensities differ, each sample \<open>w\<close> is
  rescaled to \<open>(w - min) / (max - min)\<close>, the rescaled samples have
  the minimum 0 and the maximum 1, every vertex met by a face-corner holds a weight in
  \<open>[0,1]\<close>, and when no vertex is met by two face-corners some vertex holds 0 and some vertex
  holds 1. If the sampled intensities are all equal, every vertex met by a face-corner
  holds 1.
\<close>

theorem normalized_weights_stored:
  assumes uv: "uv_layer (data obj) = Some uvs"
    and rs: "reshape_ok img"
    and smp: "weight_corners (loops (data obj)) uvs img (concat (polygons (data obj))) = Inr sampled"
    and ne: "concat (polygons (data obj)) \<noteq> []"
  shows "\<exists>ws g. normalize_weights sampled = Inr ws \<and> map fst ws = map fst sampled \<and>
           fst (assign_weights_from_texture obj img name True) = Inr True \<and>
           map_of (snd (assign_weights_from_texture obj img name True)) name = Some g \<and>
           g = group_weights name (vertex_groups obj) ++ map_of (rev ws) \<and>
           (if Min (set (map snd sampled)) < Max (set (map snd sampled))
            then ws = map (\<lambda>(idx, w). (idx, (w - Min (set (map snd sampled)))
                            / (Max (set (map snd sampled)) - Min (set (map snd sampled)))))
                        sampled \<and>
                 Min (set (map snd ws)) = 0 \<and> Max (set (map snd ws)) = 1 \<and>
                 (\<forall>v \<in> set (map fst sampled). \<exists>w. g v = Some w \<and> 0 \<le> w \<and> w \<le> 1) \<and>
                 (distinct (map fst sampled) \<longrightarrow>
                    (\<exists>v \<in> set (map fst sampled). g v = Some 0) \<and>
                    (\<exists>v \<in> set (map fst sampled). g v = Some 1))
            else ws = map (\<lambda>(idx, w). (idx, 1)) sampled \<and>
                 (\<forall>v \<in> set (map fst sampled). g v = Some 1))"
proof -
  have sne: "sampled \<noteq> []" using weight_corners_length [OF smp] ne by auto
  let ?old = "group_weights name (vertex_groups obj)"
  have stored: "(?old ++ map_of (rev ws)) v = Some w" if "map_of (rev ws) v = Some w" for ws v w
    using that by (simp add: map_add_def)
  show ?thesis
  proof (cases "Min (set (map snd sampled)) < Max (set (map snd sampled))")
    case True
    from normalize_weights_spread [OF sne True] obtain ws where
      ws: "normalize_weights sampled = Inr ws" "map fst ws = map fst sampled"
        "Min (set (map snd ws)) = 0" "Max (set (map snd ws)) = 1"
        "ws = map (\<lambda>(idx, w). (idx, (w - Min (set (map snd sampled)))
                     / (Max (set (map snd sampled)) - Min (set (map snd sampled))))) sampled"
      by blast
    let ?g = "?old ++ map_of (rev ws)"
    note res = paint_result [OF uv rs smp ws(1), of name]
    have wne: "ws \<noteq> []" using ws(2) sne by auto
    have fin: "finite (set (map snd ws))" and nemp: "set (map snd ws) \<noteq> {}"
      using wne by simp_all
    have bounds: "\<forall>v \<in> set (map fst sampled). \<exists>w. ?g v = Some w \<and> 0 \<le> w \<and> w \<le> 1"
    proof
      fix v assume "v \<in> set (map fst sampled)"
      then have "v \<in> set (map fst ws)" by (simp only: ws(2))
      from map_of_rev_in [OF this] obtain w where
        w: "map_of (rev ws) v = Some w" "w \<in> set (map snd ws)" by blast
      have "Min (set (map snd ws)) \<le> w" using w(2) fin by (rule_tac Min_le)
      moreover have "w \<le> Max (set (map snd ws))" using w(2) fin by (rule_tac Max_ge)
      ultimately show "\<exists>w. ?g v = Some w \<and> 0 \<le> w \<and> w \<le> 1"
        using stored [OF w(1)] by (simp only: ws(3,4)) blast
    qed
    have ends: "distinct (map fst sampled) \<longrightarrow>
                    (\<exists>v \<in> set (map fst sampled). ?g v = Some 0) \<and>
                    (\<exists>v \<in> set (map fst sampled). ?g v = Some 1)"
    proof
      assume "distinct (map fst sampled)"
      then have d: "distinct (map fst ws)" by (simp only: ws(2))
      have "Min (set (map snd ws)) \<in> set (map snd ws)" using fin nemp by (rule Min_in)
      then have z: "0 \<in> set (map snd ws)" by (simp only: ws(3))
      have "Max (set (map snd ws)) \<in> set (map snd ws)" using fin nemp by (rule Max_in)
      then have o: "1 \<in> set (map snd ws)" by (simp only: ws(4))
      from map_of_rev_distinct [OF d z] obtain v0 where
        v0: "v0 \<in> set (map fst ws)" "map_of (rev ws) v0 = Some 0" by blast
      from map_of_rev_distinct [OF d o] obtain v1 where
        v1: "v1 \<in> set (map fst ws)" "map_of (rev ws) v1 = Some 1" by blast
      from stored [OF v0(2)] v0(1) [unfolded ws(2)]
      have a: "\<exists>v \<in> set (map fst sampled). ?g v = Some 0" by (rule bexI)
      from stored [OF v1(2)] v1(1) [unfolded ws(2)]
      have b: "\<exists>v \<in> set (map fst sampled). ?g v = Some 1" by (rule bexI)
      show "(\<exists>v \<in> set (map fst sampled). ?g v = Some 0) \<and>
            (\<exists>v \<in> set (map fst sampled). ?g v = Some 1)"
        using a b by (rule conjI)
    qed
    have concl: "normalize_weights sampled = Inr ws \<and> map fst ws = map fst sampled \<and>
           fst (assign_weights_from_texture obj img name True) = Inr True \<and>
           map_of (snd (assign_weights_from_texture obj img name True)) name = Some ?g \<and>
           ?g = ?old ++ map_of (rev ws) \<and>
           (ws = map (\<lambda>(idx, w). (idx, (w - Min (set (map snd sampled)))
                            / (Max (set (map snd sampled)) - Min (set (map snd sampled)))))
                        sampled \<and>
            Min (set (map snd ws)) = 0 \<and> Max (set (map snd ws)) = 1 \<and>
            (\<forall>v \<in> set (map fst sampled). \<exists>w. ?g v = Some w \<and> 0 \<le> w \<and> w \<le> 1) \<and>
            (distinct (map fst sampled) \<longrightarrow>
               (\<exists>v \<in> set (map fst sampled). ?g v = Some 0) \<and>
               (\<exists>v \<in> set (map fst sampled). ?g v = Some 1)))"
      by (intro conjI) (fact ws res bounds ends | rule refl)+
    show ?thesis
      by (intro exI [of _ ws] exI [of _ ?g], subst if_P [OF True]) (rule concl)
  next
    case False
    have le: "Min (set (map snd sampled)) \<le> Max (set (map snd sampled))"
    proof -
      obtain p where p: "p \<in> set (map snd sampled)" using sne by (cases sampled) auto
      have "Min (set (map snd sampled)) \<le> p" "p \<le> Max (set (map snd sampled))"
        using p by (simp_all del: set_map)
      then show ?thesis by simp
    qed
    then have eq: "Min (set (map snd sampled)) = Max (set (map snd sampled))" using False by simp
    let ?ws = "map (\<lambda>(idx, w). (idx, 1::real)) sampled"
    let ?g = "?old ++ map_of (rev ?ws)"
    note run = normalize_weights_flat [OF sne eq]
    note res = paint_result [OF uv rs smp run, of name]
    have keys: "map fst ?ws = map fst sampled" by (simp add: split_def comp_def)
    have ones: "\<forall>v \<in> set (map fst sampled). ?g v = Some 1"
    proof
      fix v assume "v \<in> set (map fst sampled)"
      then have "v \<in> set (map fst ?ws)" by (simp only: keys)
      from map_of_rev_in [OF this] obtain w where
        w: "map_of (rev ?ws) v = Some w" "w \<in> set (map snd ?ws)" by blast
      have "w = 1" using w(2) by auto
      then show "?g v = Some 1" using stored [OF w(1)] by simp
    qed
    show ?thesis using run keys res ones False by (intro exI [of _ ?ws] exI [of _ ?g]) simp
  qed
qed

theorem normalized_weights_stored_witness:
  "(\<exists>g. map_of (snd (assign_weights_from_texture two_corner_object two_pixel_row
                        ''Texture_Weights'' True)) ''Texture_Weights'' = Some g \<and>
        g 0 = Some 0 \<and> g 1 = Some 1) \<and>
   (\<exists>g. map_of (snd (assign_weights_from_texture two_corner_object flat_row
                        ''Texture_Weights'' True)) ''Texture_Weights'' = Some g \<and>
        g 0 = Some 1 \<and> g 1 = Some 1)"
proof -
  have uv: "uv_layer (data two_corner_object) = Some [(0, 0), (1, 0)]"
    and ne: "concat (polygons (data two_corner_object)) \<noteq> []"
    by (simp_all add: example_defs)
  have r1: "reshape_ok two_pixel_row" and r2: "reshape_ok flat_row"
    by (simp_all add: example_defs reshape_ok_def)
  have n1: "normalize_weights [(0, 0), (1, 1 / 4)] = Inr [(0, 0), (1, 1)]"
    by (simp add: normalize_weights_def)
  from normalized_weights_stored [OF uv r1 sampled_two_pixel_row ne, of "''Texture_Weights''"]
  obtain ws g where
    a: "normalize_weights [(0, 0), (1, 1 / 4)] = Inr ws"
      "map_of (snd (assign_weights_from_texture two_corner_object two_pixel_row
                      ''Texture_Weights'' True)) ''Texture_Weights'' = Some g"
      "g = group_weights ''Texture_Weights'' (vertex_groups two_corner_object) ++ map_of (rev ws)"
    by blast
  have "ws = [(0, 0), (1, 1)]" using a(1) n1 by simp
  then have "g 0 = Some 0 \<and> g 1 = Some 1" using a(3) by (simp add: map_add_def)
  then have first: "\<exists>g. map_of (snd (assign_weights_from_texture two_corner_object two_pixel_row
                        ''Texture_Weights'' True)) ''Texture_Weights'' = Some g \<and>
        g 0 = Some 0 \<and> g 1 = Some 1"
    using a(2) by blast
  from normalized_weights_stored [OF uv r2 sampled_flat_row ne, of "''Texture_Weights''"]
  obtain g' where
    b: "map_of (snd (assign_weights_from_texture two_corner_object flat_row
                      ''Texture_Weights'' True)) ''Texture_Weights'' = Some g'"
      "\<forall>v \<in> set (map fst [(0::nat, 1 / 2 :: real), (1, 1 / 2)]). g' v = Some 1"
    by auto
  have "g' 0 = Some 1 \<and> g' 1 = Some 1" using b(2) by simp
  then have second: "\<exists>g. map_of (snd (assign_weights_from_texture two_corner_object flat_row
                        ''Texture_Weights'' True)) ''Texture_Weights'' = Some g \<and>
        g 0 = Some 1 \<and> g 1 = Some 1"
    using b(1) by blast
  show ?thesis using first second by (rule conjI)
qed

end
